theory Spec2Isabelle
  imports Main "HOL-Library.Multiset" "HOL-Library.Sublist"
begin

section \<open>The to-do list of \<^verbatim>\<open>src/App.jsx\<close>\<close>

text \<open>
  The component \<^verbatim>\<open>App\<close> keeps eight \<^verbatim>\<open>useState\<close> cells and changes them in event
  handlers. Each handler reads the cells of the last render through its closure and
  writes new values, so one event is one transition of a record of the eight cells.

  JavaScript strings are modelled as \<^typ>\<open>string\<close>, that is for code units below 256.
  \<^verbatim>\<open>Date.now()\<close> is a reading of the host's clock: the handler that calls it takes
  the value read as an argument. \<^verbatim>\<open>editingCategory\<close> is \<^verbatim>\<open>null\<close> or a string: an option.
\<close>

subsection \<open>Data\<close>

record todo =
  id_todo :: int
  text_todo :: string
  completed :: bool
  category :: string

record app_state =
  todos :: "todo list"
  input :: string
  categories :: "string list"
  selectedCategory :: string
  filterCategory :: string
  newCategory :: string
  editingCategory :: "string option"
  editCategoryValue :: string

definition initialState :: app_state where
  "initialState =
     \<lparr>todos = [], input = [], categories = [''Personal'', ''Work'', ''Shopping''],
      selectedCategory = [], filterCategory = ''all'', newCategory = [],
      editingCategory = None, editCategoryValue = []\<rparr>"

subsection \<open>\<^verbatim>\<open>String.prototype.trim\<close>\<close>

text \<open>
  \<^verbatim>\<open>trim\<close> removes white space and line terminators from both ends. Below 256 these
  are TAB, LF, VT, FF, CR, SPACE and NBSP.
\<close>

definition isWhiteSpace :: "char \<Rightarrow> bool" where
  "isWhiteSpace c =
     (c = CHR 0x09 \<or> c = CHR 0x0A \<or> c = CHR 0x0B \<or> c = CHR 0x0C \<or> c = CHR 0x0D
      \<or> c = CHR 0x20 \<or> c = CHR 0xA0)"

definition trim :: "string \<Rightarrow> string" where
  "trim s = rev (dropWhile isWhiteSpace (rev (dropWhile isWhiteSpace s)))"

subsection \<open>Event handlers\<close>

definition setInput :: "string \<Rightarrow> app_state \<Rightarrow> app_state" where
  "setInput v s = s\<lparr>input := v\<rparr>"

definition setSelectedCategory :: "string \<Rightarrow> app_state \<Rightarrow> app_state" where
  "setSelectedCategory v s = s\<lparr>selectedCategory := v\<rparr>"

definition setFilterCategory :: "string \<Rightarrow> app_state \<Rightarrow> app_state" where
  "setFilterCategory v s = s\<lparr>filterCategory := v\<rparr>"

definition setNewCategory :: "string \<Rightarrow> app_state \<Rightarrow> app_state" where
  "setNewCategory v s = s\<lparr>newCategory := v\<rparr>"

definition setEditCategoryValue :: "string \<Rightarrow> app_state \<Rightarrow> app_state" where
  "setEditCategoryValue v s = s\<lparr>editCategoryValue := v\<rparr>"

definition addTodo :: "int \<Rightarrow> app_state \<Rightarrow> app_state" where
  \<comment> \<open>\<open>now\<close> is the value of \<^verbatim>\<open>Date.now()\<close>; a non-empty string is truthy.\<close>
  "addTodo now s =
     (if trim (input s) \<noteq> [] then
        s\<lparr>todos := todos s @
              [\<lparr>id_todo = now, text_todo = input s, completed = False,
                category = (if selectedCategory s \<noteq> [] then selectedCategory s
                            else ''Uncategorized'')\<rparr>],
          input := []\<rparr>
      else s)"

definition toggleTodo :: "int \<Rightarrow> app_state \<Rightarrow> app_state" where
  "toggleTodo i s =
     s\<lparr>todos := map (\<lambda>t. if id_todo t = i then t\<lparr>completed := \<not> completed t\<rparr> else t)
                    (todos s)\<rparr>"

definition deleteTodo :: "int \<Rightarrow> app_state \<Rightarrow> app_state" where
  "deleteTodo i s = s\<lparr>todos := filter (\<lambda>t. id_todo t \<noteq> i) (todos s)\<rparr>"

definition addCategory :: "app_state \<Rightarrow> app_state" where
  "addCategory s =
     (if trim (newCategory s) \<noteq> [] \<and> trim (newCategory s) \<notin> set (categories s) then
        s\<lparr>categories := categories s @ [trim (newCategory s)], newCategory := []\<rparr>
      else s)"

definition deleteCategory :: "string \<Rightarrow> app_state \<Rightarrow> app_state" where
  "deleteCategory categoryToDelete s =
     s\<lparr>categories := filter (\<lambda>cat. cat \<noteq> categoryToDelete) (categories s),
       todos := map (\<lambda>t. if category t = categoryToDelete
                          then t\<lparr>category := ''Uncategorized''\<rparr> else t) (todos s),
       selectedCategory := (if selectedCategory s = categoryToDelete then []
                            else selectedCategory s),
       filterCategory := (if filterCategory s = categoryToDelete then ''all''
                          else filterCategory s)\<rparr>"

definition startEditCategory :: "string \<Rightarrow> app_state \<Rightarrow> app_state" where
  "startEditCategory c s = s\<lparr>editingCategory := Some c, editCategoryValue := c\<rparr>"

definition saveEditCategory :: "app_state \<Rightarrow> app_state" where
  \<comment> \<open>\<^verbatim>\<open>cat === oldCategory\<close> is false for every string when \<^verbatim>\<open>oldCategory\<close> is \<^verbatim>\<open>null\<close>.\<close>
  "saveEditCategory s =
     (if trim (editCategoryValue s) \<noteq> [] \<and> trim (editCategoryValue s) \<notin> set (categories s)
      then
        (let oldCategory = editingCategory s;
             newCategoryName = trim (editCategoryValue s)
         in s\<lparr>categories := map (\<lambda>cat. if Some cat = oldCategory then newCategoryName else cat)
                                (categories s),
              todos := map (\<lambda>t. if Some (category t) = oldCategory
                                 then t\<lparr>category := newCategoryName\<rparr> else t) (todos s),
              selectedCategory := (if Some (selectedCategory s) = oldCategory
                                   then newCategoryName else selectedCategory s),
              filterCategory := (if Some (filterCategory s) = oldCategory
                                 then newCategoryName else filterCategory s),
              editingCategory := None,
              editCategoryValue := []\<rparr>)
      else s)"

definition cancelEditCategory :: "app_state \<Rightarrow> app_state" where
  "cancelEditCategory s = s\<lparr>editingCategory := None, editCategoryValue := []\<rparr>"

subsection \<open>The derived view\<close>

text \<open>
  \<^verbatim>\<open>Array.prototype.sort\<close> and \<^verbatim>\<open>String.prototype.localeCompare\<close> belong to the host.
  The comparison is a parameter \<open>cmp\<close> (negative, zero or positive). The sort is stable
  by the language standard; for a consistent comparison a stable sort has one possible
  result, computed here by insertion from the right.
\<close>

fun insertBy :: "('a \<Rightarrow> 'a \<Rightarrow> int) \<Rightarrow> 'a \<Rightarrow> 'a list \<Rightarrow> 'a list" where
  "insertBy c x [] = [x]"
| "insertBy c x (y # ys) = (if c x y \<le> 0 then x # y # ys else y # insertBy c x ys)"

fun sortBy :: "('a \<Rightarrow> 'a \<Rightarrow> int) \<Rightarrow> 'a list \<Rightarrow> 'a list" where
  "sortBy c [] = []"
| "sortBy c (x # xs) = insertBy c x (sortBy c xs)"

definition filteredTodos :: "app_state \<Rightarrow> todo list" where
  "filteredTodos s =
     (if filterCategory s = ''all'' then todos s
      else filter (\<lambda>t. category t = filterCategory s) (todos s))"

definition sortedTodos :: "(string \<Rightarrow> string \<Rightarrow> int) \<Rightarrow> app_state \<Rightarrow> todo list" where
  "sortedTodos localeCompare s =
     sortBy (\<lambda>a b. localeCompare (category a) (category b)) (filteredTodos s)"

definition consistent :: "(string \<Rightarrow> string \<Rightarrow> int) \<Rightarrow> bool" where
  \<comment> \<open>What the standard asks of a comparison for the sort order to be defined.\<close>
  "consistent cmp \<longleftrightarrow>
     (\<forall>a. cmp a a = 0) \<and> (\<forall>a b. cmp a b < 0 \<longleftrightarrow> 0 < cmp b a)
     \<and> (\<forall>a b c. cmp a b \<le> 0 \<and> cmp b c \<le> 0 \<longrightarrow> cmp a c \<le> 0)"

fun codeUnitCompare :: "string \<Rightarrow> string \<Rightarrow> int" where
  \<comment> \<open>One consistent comparison: code unit by code unit, a prefix first.\<close>
  "codeUnitCompare [] [] = 0"
| "codeUnitCompare [] (y # ys) = -1"
| "codeUnitCompare (x # xs) [] = 1"
| "codeUnitCompare (x # xs) (y # ys) =
     (if of_char x < (of_char y :: nat) then -1
      else if of_char y < (of_char x :: nat) then 1
      else codeUnitCompare xs ys)"

subsection \<open>Events and runs\<close>

datatype event =
    SetInput string
  | SetSelectedCategory string
  | SetFilterCategory string
  | SetNewCategory string
  | SetEditCategoryValue string
  | AddTodo int
  | ToggleTodo int
  | DeleteTodo int
  | AddCategory
  | DeleteCategory string
  | StartEditCategory string
  | SaveEditCategory
  | CancelEditCategory

fun step :: "event \<Rightarrow> app_state \<Rightarrow> app_state" where
  "step (SetInput v) s = setInput v s"
| "step (SetSelectedCategory v) s = setSelectedCategory v s"
| "step (SetFilterCategory v) s = setFilterCategory v s"
| "step (SetNewCategory v) s = setNewCategory v s"
| "step (SetEditCategoryValue v) s = setEditCategoryValue v s"
| "step (AddTodo now) s = addTodo now s"
| "step (ToggleTodo i) s = toggleTodo i s"
| "step (DeleteTodo i) s = deleteTodo i s"
| "step AddCategory s = addCategory s"
| "step (DeleteCategory c) s = deleteCategory c s"
| "step (StartEditCategory c) s = startEditCategory c s"
| "step SaveEditCategory s = saveEditCategory s"
| "step CancelEditCategory s = cancelEditCategory s"

fun run :: "event list \<Rightarrow> app_state \<Rightarrow> app_state" where
  "run [] s = s"
| "run (e # es) s = run es (step e s)"

text \<open>
  The rendered controls: the category \<^verbatim>\<open>select\<close> offers the empty value and the
  current categories, and the Save button exists only in the row of a current category
  that is being edited.
\<close>

fun offered :: "app_state \<Rightarrow> event \<Rightarrow> bool" where
  "offered s (SetSelectedCategory v) \<longleftrightarrow> v = [] \<or> v \<in> set (categories s)"
| "offered s SaveEditCategory \<longleftrightarrow>
     (case editingCategory s of None \<Rightarrow> False | Some c \<Rightarrow> c \<in> set (categories s))"
| "offered s e \<longleftrightarrow> True"

fun offeredRun :: "event list \<Rightarrow> app_state \<Rightarrow> bool" where
  "offeredRun [] s \<longleftrightarrow> True"
| "offeredRun (e # es) s \<longleftrightarrow> offered s e \<and> offeredRun es (step e s)"

text \<open>The operations of the store, as the event sequences that perform them.\<close>

definition addTodoOp :: "string \<Rightarrow> string \<Rightarrow> int \<Rightarrow> app_state \<Rightarrow> app_state" where
  "addTodoOp txt cat now s = addTodo now (setSelectedCategory cat (setInput txt s))"

definition addCategoryOp :: "string \<Rightarrow> app_state \<Rightarrow> app_state" where
  "addCategoryOp name s = addCategory (setNewCategory name s)"

definition renameCategory :: "string \<Rightarrow> string \<Rightarrow> app_state \<Rightarrow> app_state" where
  "renameCategory oldName newName s =
     saveEditCategory (setEditCategoryValue newName (startEditCategory oldName s))"

definition refIntegrity :: "app_state \<Rightarrow> bool" where
  "refIntegrity s \<longleftrightarrow>
     (\<forall>t \<in> set (todos s). category t = ''Uncategorized'' \<or> category t \<in> set (categories s))"

text \<open>
  The clock readings of a run, in the order taken: \<^verbatim>\<open>addTodo\<close> reads the clock only
  when the text does not trim to empty.
\<close>

fun readings :: "event list \<Rightarrow> app_state \<Rightarrow> int list" where
  "readings [] s = []"
| "readings (AddTodo now # es) s =
     (if trim (input s) \<noteq> [] then now # readings es (addTodo now s)
      else readings es (addTodo now s))"
| "readings (e # es) s = readings es (step e s)"

text \<open>
  Every state the component can be in, whatever arguments the events carry.
\<close>

inductive reachable :: "app_state \<Rightarrow> bool" where
  reachable_init: "reachable initialState"
| reachable_step: "reachable s \<Longrightarrow> reachable (step e s)"

definition catsOk :: "app_state \<Rightarrow> bool" where
  "catsOk s \<longleftrightarrow> distinct (categories s) \<and> (\<forall>c \<in> set (categories s). trim c = c)"

definition selectionOk :: "app_state \<Rightarrow> bool" where
  "selectionOk s \<longleftrightarrow> selectedCategory s = [] \<or> selectedCategory s \<in> set (categories s)"

definition sampleState :: app_state where
  "sampleState =
     run [SetInput ''buy milk'', SetSelectedCategory ''Work'', AddTodo 1,
          SetInput ''call home'', SetSelectedCategory [], AddTodo 2,
          SetInput ''pay rent'', SetSelectedCategory ''Work'', AddTodo 3,
          ToggleTodo 2, SetFilterCategory ''Work''] initialState"

definition ghostState :: app_state where
  "ghostState =
     run [SetInput ''x'', SetSelectedCategory ''Ghost'', AddTodo 1, SetFilterCategory ''Ghost'']
       initialState"

definition officeRun :: "event list" where
  "officeRun =
     [SetInput ''buy milk'', SetSelectedCategory ''Work'', AddTodo 1,
      StartEditCategory ''Work'', SetEditCategoryValue '' Job '', SaveEditCategory,
      SetInput ''call home'', AddTodo 2, DeleteCategory ''Job'',
      SetNewCategory ''Home'', AddCategory, SetSelectedCategory ''Home'',
      SetInput ''water plants'', AddTodo 3]"

definition clockRun :: "event list" where
  "clockRun =
     [SetInput ''a'', AddTodo 5, SetInput ''  '', AddTodo 0, SetInput ''b'', AddTodo 6,
      SetInput ''c'', AddTodo 9, DeleteTodo 6, ToggleTodo 5]"

definition clockRepeat :: "event list" where
  "clockRepeat = clockRun @ [SetInput ''d'', AddTodo 9]"

definition stableExample :: app_state where
  "stableExample =
     initialState\<lparr>todos :=
       [\<lparr>id_todo = 1, text_todo = ''x'', completed = False, category = ''B''\<rparr>,
        \<lparr>id_todo = 2, text_todo = ''y'', completed = False, category = ''A''\<rparr>,
        \<lparr>id_todo = 3, text_todo = ''z'', completed = False, category = ''A''\<rparr>]\<rparr>"

section \<open>Auxiliary facts\<close>

lemmas handler_defs =
  setInput_def setSelectedCategory_def setFilterCategory_def setNewCategory_def
  setEditCategoryValue_def addTodo_def toggleTodo_def deleteTodo_def addCategory_def
  deleteCategory_def startEditCategory_def saveEditCategory_def cancelEditCategory_def

subsection \<open>Trimming\<close>

lemma trim_fix:
  assumes "s = [] \<or> (\<not> isWhiteSpace (hd s) \<and> \<not> isWhiteSpace (last s))"
  shows "trim s = s"
proof (cases "s = []")
  case True
  then show ?thesis by (simp add: trim_def)
next
  case False
  with assms have h: "\<not> isWhiteSpace (hd s)" and l: "\<not> isWhiteSpace (last s)" by auto
  from h have a: "dropWhile isWhiteSpace s = s" by (simp add: dropWhile_eq_self_iff)
  from False l have "\<not> isWhiteSpace (hd (rev s))" by (simp add: hd_rev)
  then have "dropWhile isWhiteSpace (rev s) = rev s" by (simp add: dropWhile_eq_self_iff)
  with a show ?thesis by (simp add: trim_def)
qed

lemma trim_clean:
  "trim s = [] \<or> (\<not> isWhiteSpace (hd (trim s)) \<and> \<not> isWhiteSpace (last (trim s)))"
proof (cases "trim s = []")
  case True
  then show ?thesis by simp
next
  case False
  define a where "a = dropWhile isWhiteSpace s"
  define b where "b = dropWhile isWhiteSpace (rev a)"
  have t: "trim s = rev b" by (simp add: trim_def a_def b_def)
  with False have bne: "b \<noteq> []" by simp
  then have ane: "a \<noteq> []" by (auto simp: b_def)
  from bne have hb: "\<not> isWhiteSpace (hd b)" unfolding b_def by (rule hd_dropWhile)
  from ane have ha: "\<not> isWhiteSpace (hd a)" unfolding a_def by (rule hd_dropWhile)
  from bne have "hd b \<in> set (rev a)"
    unfolding b_def by (metis hd_in_set set_dropWhileD)
  then have "last b = last (rev a)" using hb unfolding b_def by (rule dropWhile_last)
  with ane have lb: "last b = hd a" by (simp add: last_rev)
  from bne have "hd (trim s) = last b" "last (trim s) = hd b"
    by (simp_all add: t hd_rev last_rev)
  with ha hb lb show ?thesis by simp
qed

lemma trim_idem: "trim (trim s) = trim s"
  by (rule trim_fix) (rule trim_clean)

subsection \<open>Runs and reachable states\<close>

lemma reachable_run: "reachable s \<Longrightarrow> reachable (run es s)"
  by (induction es arbitrary: s) (auto intro: reachable_step)

lemma distinct_rename:
  "distinct xs \<Longrightarrow> n \<notin> set xs \<Longrightarrow> distinct (map (\<lambda>c. if Some c = old then n else c) xs)"
  by (induction xs) auto

lemma catsOk_init: "catsOk initialState"
  by (simp add: catsOk_def initialState_def trim_def isWhiteSpace_def)

lemma catsOk_step: "catsOk s \<Longrightarrow> catsOk (step e s)"
proof (cases e)
  case AddCategory
  assume "catsOk s"
  then show ?thesis using AddCategory
    by (auto simp: catsOk_def addCategory_def trim_idem)
next
  case SaveEditCategory
  assume "catsOk s"
  then show ?thesis using SaveEditCategory
    by (auto simp: catsOk_def saveEditCategory_def Let_def trim_idem distinct_rename)
qed (auto simp: catsOk_def handler_defs)

lemma reachable_catsOk: "reachable s \<Longrightarrow> catsOk s"
  by (induction rule: reachable.induct) (auto intro: catsOk_init catsOk_step)

lemma sampleState_eq:
  "sampleState =
     \<lparr>todos = [\<lparr>id_todo = 1, text_todo = ''buy milk'', completed = False, category = ''Work''\<rparr>,
               \<lparr>id_todo = 2, text_todo = ''call home'', completed = True,
                category = ''Uncategorized''\<rparr>,
               \<lparr>id_todo = 3, text_todo = ''pay rent'', completed = False, category = ''Work''\<rparr>],
      input = [], categories = [''Personal'', ''Work'', ''Shopping''],
      selectedCategory = ''Work'', filterCategory = ''Work'', newCategory = [],
      editingCategory = None, editCategoryValue = []\<rparr>"
  by (simp add: sampleState_def initialState_def handler_defs trim_def isWhiteSpace_def)

lemma reachable_sampleState: "reachable sampleState"
  unfolding sampleState_def by (intro reachable_run reachable_init)

subsection \<open>Lists of names\<close>

lemma length_filter_neq:
  "distinct xs \<Longrightarrow>
     (n \<in> set xs \<longrightarrow> length (filter (\<lambda>c. c \<noteq> n) xs) + 1 = length xs)
     \<and> (n \<notin> set xs \<longrightarrow> filter (\<lambda>c. c \<noteq> n) xs = xs)"
  by (induction xs) auto

lemma count_list_distinct:
  "distinct xs \<Longrightarrow> count_list xs x = (if x \<in> set xs then 1 else 0)"
  by (induction xs) auto

subsection \<open>Referential integrity under the offered events\<close>

lemma offered_step:
  assumes "refIntegrity s" and "selectionOk s" and "offered s e"
  shows "refIntegrity (step e s) \<and> selectionOk (step e s)"
proof (cases e)
  case (AddTodo now)
  with assms show ?thesis
    by (auto simp: refIntegrity_def selectionOk_def addTodo_def)
next
  case (DeleteCategory c)
  with assms show ?thesis
    by (auto simp: refIntegrity_def selectionOk_def deleteCategory_def)
next
  case SaveEditCategory
  with assms obtain c where c: "editingCategory s = Some c" "c \<in> set (categories s)"
    by (auto split: option.splits)
  with assms SaveEditCategory show ?thesis
    by (auto simp: refIntegrity_def selectionOk_def saveEditCategory_def Let_def)
next
  case AddCategory
  with assms show ?thesis
    by (auto simp: refIntegrity_def selectionOk_def addCategory_def)
qed (use assms in \<open>auto simp: refIntegrity_def selectionOk_def handler_defs\<close>)

lemma offeredRun_inv:
  "refIntegrity s \<Longrightarrow> selectionOk s \<Longrightarrow> offeredRun es s \<Longrightarrow>
     refIntegrity (run es s) \<and> selectionOk (run es s)"
proof (induction es arbitrary: s)
  case Nil
  then show ?case by simp
next
  case (Cons e es)
  from Cons.prems have "refIntegrity (step e s) \<and> selectionOk (step e s)"
    by (intro offered_step) auto
  with Cons.prems Cons.IH [of "step e s"] show ?case by simp
qed

subsection \<open>Ids and clock readings\<close>

lemma map_id_todo_if:
  "(\<And>t. id_todo (f t) = id_todo t) \<Longrightarrow>
     map id_todo (map (\<lambda>t. if Q t then f t else t) xs) = map id_todo xs"
  by (induction xs) auto

lemma ids_step:
  "map id_todo (todos (step e s)) =
     (case e of
        AddTodo now \<Rightarrow> if trim (input s) \<noteq> [] then map id_todo (todos s) @ [now]
                       else map id_todo (todos s)
      | DeleteTodo i \<Rightarrow> filter (\<lambda>j. j \<noteq> i) (map id_todo (todos s))
      | _ \<Rightarrow> map id_todo (todos s))"
proof (cases e)
  case (ToggleTodo i)
  then show ?thesis
    by (simp add: toggleTodo_def map_id_todo_if del: map_map)
next
  case (DeleteCategory c)
  then show ?thesis
    by (simp add: deleteCategory_def map_id_todo_if del: map_map)
next
  case SaveEditCategory
  then show ?thesis
    by (simp add: saveEditCategory_def Let_def map_id_todo_if del: map_map)
next
  case (DeleteTodo i)
  then show ?thesis
    by (simp add: deleteTodo_def filter_map comp_def)
qed (simp_all add: handler_defs)

lemma subseq_sorted_wrt: "subseq xs ys \<Longrightarrow> sorted_wrt R ys \<Longrightarrow> sorted_wrt R xs"
proof (induction rule: list_emb.induct)
  case (list_emb_Cons2 x y xs ys)
  then have "set xs \<subseteq> set ys" by (auto dest: list_emb_set)
  with list_emb_Cons2 show ?case by auto
qed auto

lemma subseq_distinct: "subseq xs ys \<Longrightarrow> distinct ys \<Longrightarrow> distinct xs"
proof (induction rule: list_emb.induct)
  case (list_emb_Cons2 x y xs ys)
  then have "set xs \<subseteq> set ys" by (auto dest: list_emb_set)
  with list_emb_Cons2 show ?case by auto
qed auto

lemma readings_step:
  "readings (e # es) s =
     (case e of
        AddTodo now \<Rightarrow> if trim (input s) \<noteq> [] then now # readings es (step e s)
                       else readings es (step e s)
      | _ \<Rightarrow> readings es (step e s))"
  by (cases e) simp_all

lemma ids_step_subseq:
  "subseq (map id_todo (todos (step e s)) @ readings es (step e s))
          (map id_todo (todos s) @ readings (e # es) s)"
proof (cases e)
  case (AddTodo now)
  then show ?thesis
    by (simp add: ids_step readings_step del: step.simps readings.simps)
next
  case (DeleteTodo i)
  then show ?thesis
    by (simp add: ids_step readings_step list_emb_append_mono del: step.simps readings.simps)
qed (simp_all add: ids_step readings_step del: step.simps readings.simps)

lemma ids_run_subseq:
  "subseq (map id_todo (todos (run es s))) (map id_todo (todos s) @ readings es s)"
proof (induction es arbitrary: s)
  case Nil
  then show ?case by simp
next
  case (Cons e es)
  have "subseq (map id_todo (todos (run es (step e s))))
          (map id_todo (todos (step e s)) @ readings es (step e s))"
    by (rule Cons.IH)
  also have "subseq \<dots> (map id_todo (todos s) @ readings (e # es) s)"
    by (rule ids_step_subseq)
  finally show ?case by simp
qed

subsection \<open>Insertion sort by a comparison\<close>

lemma mset_insertBy: "mset (insertBy c x ys) = add_mset x (mset ys)"
  by (induction ys) auto

lemma mset_sortBy: "mset (sortBy c xs) = mset xs"
  by (induction xs) (auto simp: mset_insertBy)

lemma set_insertBy: "set (insertBy c x ys) = insert x (set ys)"
  by (induction ys) auto

lemma sorted_insertBy:
  assumes total: "\<And>a b. 0 < c a b \<Longrightarrow> c b a \<le> 0"
    and trans: "\<And>a b d. c a b \<le> 0 \<Longrightarrow> c b d \<le> 0 \<Longrightarrow> c a d \<le> 0"
  shows "sorted_wrt (\<lambda>a b. c a b \<le> 0) ys \<Longrightarrow> sorted_wrt (\<lambda>a b. c a b \<le> 0) (insertBy c x ys)"
proof (induction ys)
  case Nil
  then show ?case by simp
next
  case (Cons y ys)
  show ?case
  proof (cases "c x y \<le> 0")
    case True
    with Cons.prems show ?thesis
      by (auto intro: trans)
  next
    case False
    then have "c y x \<le> 0" using total [of x y] by simp
    with False Cons show ?thesis
      by (auto simp: set_insertBy)
  qed
qed

lemma sorted_sortBy:
  assumes "\<And>a b. 0 < c a b \<Longrightarrow> c b a \<le> 0"
    and "\<And>a b d. c a b \<le> 0 \<Longrightarrow> c b d \<le> 0 \<Longrightarrow> c a d \<le> 0"
  shows "sorted_wrt (\<lambda>a b. c a b \<le> 0) (sortBy c xs)"
  by (induction xs) (auto intro: sorted_insertBy assms)

lemma filter_insertBy:
  "(\<And>y. y \<in> set ys \<Longrightarrow> P x \<Longrightarrow> P y \<Longrightarrow> c x y \<le> 0) \<Longrightarrow>
     filter P (insertBy c x ys) = (if P x then x # filter P ys else filter P ys)"
  by (induction ys) auto

lemma filter_sortBy:
  assumes "\<And>x y. P x \<Longrightarrow> P y \<Longrightarrow> c x y \<le> 0"
  shows "filter P (sortBy c xs) = filter P xs"
  by (induction xs) (auto simp: filter_insertBy assms)

subsection \<open>A consistent comparison\<close>

lemma codeUnitCompare_refl: "codeUnitCompare a a = 0"
  by (induction a) auto

lemma codeUnitCompare_sym: "codeUnitCompare a b < 0 \<longleftrightarrow> 0 < codeUnitCompare b a"
  by (induction a b rule: codeUnitCompare.induct) auto

lemma codeUnitCompare_trans:
  "codeUnitCompare a b \<le> 0 \<Longrightarrow> codeUnitCompare b c \<le> 0 \<Longrightarrow> codeUnitCompare a c \<le> 0"
proof (induction a b arbitrary: c rule: codeUnitCompare.induct)
  case 1
  then show ?case by simp
next
  case (2 y ys)
  then show ?case by (cases c) auto
next
  case (3 x xs)
  then show ?case by simp
next
  case (4 x xs y ys)
  show ?case
  proof (cases c)
    case Nil
    with 4 show ?thesis by (simp split: if_splits)
  next
    case (Cons z zs)
    define nx ny nz :: nat where "nx = of_char x" and "ny = of_char y" and "nz = of_char z"
    from "4.prems"(1) have xy: "nx < ny \<or> (nx = ny \<and> codeUnitCompare xs ys \<le> 0)"
      by (simp add: nx_def ny_def split: if_splits)
    from "4.prems"(2) Cons have yz: "ny < nz \<or> (ny = nz \<and> codeUnitCompare ys zs \<le> 0)"
      by (simp add: ny_def nz_def split: if_splits)
    show ?thesis
    proof (cases "nx < nz")
      case True
      with Cons show ?thesis by (simp add: nx_def nz_def)
    next
      case False
      with xy yz have e: "nx = ny" "ny = nz"
        and le: "codeUnitCompare xs ys \<le> 0" "codeUnitCompare ys zs \<le> 0"
        by auto
      from e have "\<not> of_char x < (of_char y :: nat)" "\<not> of_char y < (of_char x :: nat)"
        by (simp_all add: nx_def ny_def)
      then have "codeUnitCompare xs zs \<le> 0"
        using le by (rule "4.IH")
      with e Cons show ?thesis by (simp add: nx_def ny_def nz_def)
    qed
  qed
qed

lemma consistent_codeUnitCompare: "consistent codeUnitCompare"
  unfolding consistent_def
  using codeUnitCompare_refl codeUnitCompare_sym codeUnitCompare_trans by blast

section \<open>The claims\<close>

text \<open>
  C7. \<^verbatim>\<open>toggleTodo(id)\<close> negates \<^verbatim>\<open>completed\<close> on the todos whose id is \<open>i\<close> and changes
  nothing else: ids, texts, categories, the order and every other cell stay, and with no
  todo of that id the state is the same. Toggling twice gives the state back.
\<close>

theorem toggleTodo_involution:
  "todos (toggleTodo i s) =
     map (\<lambda>t. if id_todo t = i then t\<lparr>completed := \<not> completed t\<rparr> else t) (todos s)
   \<and> map id_todo (todos (toggleTodo i s)) = map id_todo (todos s)
   \<and> map text_todo (todos (toggleTodo i s)) = map text_todo (todos s)
   \<and> map category (todos (toggleTodo i s)) = map category (todos s)
   \<and> map completed (todos (toggleTodo i s)) =
       map (\<lambda>t. if id_todo t = i then \<not> completed t else completed t) (todos s)
   \<and> toggleTodo i s = s\<lparr>todos := todos (toggleTodo i s)\<rparr>
   \<and> (i \<notin> id_todo ` set (todos s) \<longrightarrow> toggleTodo i s = s)
   \<and> toggleTodo i (toggleTodo i s) = s"
proof -
  let ?f = "\<lambda>t. if id_todo t = i then t\<lparr>completed := \<not> completed t\<rparr> else t"
  have twice: "map ?f (map ?f xs) = xs" for xs
    by (induction xs) auto
  have absent: "i \<notin> id_todo ` set xs \<Longrightarrow> map ?f xs = xs" for xs
    by (induction xs) auto
  have t: "todos (toggleTodo i s) = map ?f (todos s)"
    by (simp add: toggleTodo_def)
  have "toggleTodo i (toggleTodo i s) = s\<lparr>todos := map ?f (map ?f (todos s))\<rparr>"
    by (simp add: toggleTodo_def del: map_map)
  also have "\<dots> = s"
    by (simp only: twice) simp
  finally have inv: "toggleTodo i (toggleTodo i s) = s" .
  have noop: "i \<notin> id_todo ` set (todos s) \<longrightarrow> toggleTodo i s = s"
    using absent [of "todos s"] by (simp add: toggleTodo_def)
  show ?thesis
    using t inv noop by (simp add: toggleTodo_def comp_def cong: map_cong)
qed

theorem toggleTodo_involution_witness:
  "7 \<notin> id_todo ` set (todos sampleState) \<and> toggleTodo 7 sampleState = sampleState
   \<and> map completed (todos (toggleTodo 2 sampleState)) = [False, False, False]
   \<and> toggleTodo 2 (toggleTodo 2 sampleState) = sampleState"
  using toggleTodo_involution [of 7 sampleState] toggleTodo_involution [of 2 sampleState]
  by (simp add: sampleState_eq)

text \<open>
  C4. Adding a todo with a text that trims to empty (the empty text and three spaces
  among them) leaves the todos as they are. Any other text appends one todo at the end:
  its text is the text as typed, not trimmed, it is not completed, its category is the
  selected one, or \<^verbatim>\<open>Uncategorized\<close> when the selection is empty. The todos before it are
  the old ones.
\<close>

theorem addTodo_appends_untrimmed:
  "(trim txt = [] \<longrightarrow> todos (addTodoOp txt cat now s) = todos s)
   \<and> todos (addTodoOp [] cat now s) = todos s
   \<and> todos (addTodoOp ''   '' cat now s) = todos s
   \<and> (trim txt \<noteq> [] \<longrightarrow>
        todos (addTodoOp txt cat now s) =
          todos s @ [\<lparr>id_todo = now, text_todo = txt, completed = False,
                      category = (if cat = [] then ''Uncategorized'' else cat)\<rparr>])"
  by (simp add: addTodoOp_def addTodo_def setInput_def setSelectedCategory_def trim_def
      isWhiteSpace_def)

theorem addTodo_appends_untrimmed_witness:
  "trim [CHR 0x09] = [] \<and> todos (addTodoOp [CHR 0x09] ''Work'' 9 sampleState) = todos sampleState
   \<and> trim '' walk dog '' \<noteq> []
   \<and> todos (addTodoOp '' walk dog '' [] 9 sampleState) =
       todos sampleState @ [\<lparr>id_todo = 9, text_todo = '' walk dog '', completed = False,
                              category = ''Uncategorized''\<rparr>]"
  using addTodo_appends_untrimmed [of "[CHR 0x09]" "''Work''" 9 sampleState]
    addTodo_appends_untrimmed [of "'' walk dog ''" "[]" 9 sampleState]
  by (simp add: trim_def isWhiteSpace_def)

text \<open>
  C9. With a name whose trimmed value is not empty and not among the categories,
  \<^verbatim>\<open>addCategory\<close> appends the trimmed name at the end. The test for a duplicate reads
  the trimmed name: when it is among the categories the handler leaves the state as it
  is, so adding \<^verbatim>\<open>" Work "\<close> after \<^verbatim>\<open>"Work"\<close> changes nothing.
\<close>

theorem addCategory_trims:
  "(trim name \<noteq> [] \<and> trim name \<notin> set (categories s) \<longrightarrow>
      categories (addCategoryOp name s) = categories s @ [trim name])
   \<and> (trim name \<in> set (categories s) \<longrightarrow>
      addCategoryOp name s = setNewCategory name s)
   \<and> addCategoryOp '' Work '' (addCategoryOp ''Work'' s) =
       setNewCategory '' Work '' (addCategoryOp ''Work'' s)"
  by (simp add: addCategoryOp_def addCategory_def setNewCategory_def trim_def isWhiteSpace_def)

theorem addCategory_trims_witness:
  "trim '' Home '' \<noteq> [] \<and> trim '' Home '' \<notin> set (categories sampleState)
   \<and> categories (addCategoryOp '' Home '' sampleState) =
       [''Personal'', ''Work'', ''Shopping'', ''Home'']
   \<and> trim ''Work  '' \<in> set (categories sampleState)
   \<and> categories (addCategoryOp ''Work  '' sampleState) = [''Personal'', ''Work'', ''Shopping'']"
  using addCategory_trims [of "'' Home ''" sampleState]
    addCategory_trims [of "''Work  ''" sampleState]
  by (simp add: sampleState_eq trim_def isWhiteSpace_def setNewCategory_def)

text \<open>
  C2. \<^verbatim>\<open>deleteCategory(name)\<close> keeps the categories other than \<open>name\<close>, in their order,
  and gives every todo of category \<open>name\<close> the category \<^verbatim>\<open>Uncategorized\<close>. In a state
  of the component the number of categories goes down by one when \<open>name\<close> was among them
  and stays otherwise. A selection equal to \<open>name\<close> becomes empty and a filter equal to
  \<open>name\<close> becomes \<^verbatim>\<open>all\<close>; other selections and filters stay.
\<close>

theorem deleteCategory_cascade:
  "categories (deleteCategory name s) = filter (\<lambda>c. c \<noteq> name) (categories s)
   \<and> name \<notin> set (categories (deleteCategory name s))
   \<and> set (categories (deleteCategory name s)) = set (categories s) - {name}
   \<and> todos (deleteCategory name s) =
       map (\<lambda>t. if category t = name then t\<lparr>category := ''Uncategorized''\<rparr> else t) (todos s)
   \<and> (reachable s \<and> name \<in> set (categories s) \<longrightarrow>
        length (categories (deleteCategory name s)) + 1 = length (categories s))
   \<and> (name \<notin> set (categories s) \<longrightarrow>
        length (categories (deleteCategory name s)) = length (categories s))
   \<and> selectedCategory (deleteCategory name s) =
       (if selectedCategory s = name then [] else selectedCategory s)
   \<and> filterCategory (deleteCategory name s) =
       (if filterCategory s = name then ''all'' else filterCategory s)"
proof -
  have present: "length (categories (deleteCategory name s)) + 1 = length (categories s)"
    if "reachable s" and "name \<in> set (categories s)"
  proof -
    from that(1) have "distinct (categories s)"
      using reachable_catsOk by (auto simp: catsOk_def)
    with that(2) show ?thesis
      using length_filter_neq [of "categories s" name] by (simp add: deleteCategory_def)
  qed
  have absent: "filter (\<lambda>c. c \<noteq> name) (categories s) = categories s"
    if "name \<notin> set (categories s)"
    using that by (auto simp: filter_id_conv)
  show ?thesis
    using present absent by (auto simp: deleteCategory_def)
qed

theorem deleteCategory_cascade_witness:
  "reachable sampleState \<and> ''Work'' \<in> set (categories sampleState)
   \<and> ''Home'' \<notin> set (categories sampleState)
   \<and> categories (deleteCategory ''Work'' sampleState) = [''Personal'', ''Shopping'']
   \<and> map category (todos (deleteCategory ''Work'' sampleState)) =
       [''Uncategorized'', ''Uncategorized'', ''Uncategorized'']
   \<and> length (categories (deleteCategory ''Work'' sampleState)) + 1
       = length (categories sampleState)
   \<and> length (categories (deleteCategory ''Home'' sampleState))
       = length (categories sampleState)
   \<and> selectedCategory (deleteCategory ''Work'' sampleState) = []
   \<and> filterCategory (deleteCategory ''Work'' sampleState) = ''all''"
  using deleteCategory_cascade [of "''Work''" sampleState]
    deleteCategory_cascade [of "''Home''" sampleState] reachable_sampleState
  by (simp add: sampleState_eq)

text \<open>
  C10. \<^verbatim>\<open>deleteCategory(name)\<close> does not look whether \<open>name\<close> is a category. With
  \<open>name\<close> absent the categories stay, and still every todo of category \<open>name\<close> becomes
  \<^verbatim>\<open>Uncategorized\<close>, a selection equal to \<open>name\<close> becomes empty and a filter equal to
  \<open>name\<close> becomes \<^verbatim>\<open>all\<close>. So the state can change: deleting the absent name
  \<^verbatim>\<open>Uncategorized\<close> while it is the filter changes the filter.
\<close>

theorem deleteCategory_absent_name:
  "(name \<notin> set (categories s) \<longrightarrow> categories (deleteCategory name s) = categories s)
   \<and> todos (deleteCategory name s) =
       map (\<lambda>t. if category t = name then t\<lparr>category := ''Uncategorized''\<rparr> else t) (todos s)
   \<and> (selectedCategory s = name \<longrightarrow> selectedCategory (deleteCategory name s) = [])
   \<and> (filterCategory s = name \<longrightarrow> filterCategory (deleteCategory name s) = ''all'')
   \<and> ''Uncategorized'' \<notin> set (categories (setFilterCategory ''Uncategorized'' initialState))
   \<and> deleteCategory ''Uncategorized'' (setFilterCategory ''Uncategorized'' initialState)
       \<noteq> setFilterCategory ''Uncategorized'' initialState"
proof -
  have "filterCategory (deleteCategory ''Uncategorized''
          (setFilterCategory ''Uncategorized'' initialState)) = ''all''"
    by (simp add: deleteCategory_def setFilterCategory_def)
  moreover have "filterCategory (setFilterCategory ''Uncategorized'' initialState) \<noteq> ''all''"
    by (simp add: setFilterCategory_def)
  ultimately have "deleteCategory ''Uncategorized'' (setFilterCategory ''Uncategorized'' initialState)
       \<noteq> setFilterCategory ''Uncategorized'' initialState"
    by metis
  then show ?thesis
    by (auto simp: deleteCategory_def setFilterCategory_def initialState_def filter_id_conv)
qed

theorem deleteCategory_absent_name_witness:
  "''Ghost'' \<notin> set (categories ghostState)
   \<and> categories (deleteCategory ''Ghost'' ghostState) = categories ghostState
   \<and> map category (todos ghostState) = [''Ghost'']
   \<and> map category (todos (deleteCategory ''Ghost'' ghostState)) = [''Uncategorized'']
   \<and> selectedCategory ghostState = ''Ghost''
   \<and> selectedCategory (deleteCategory ''Ghost'' ghostState) = []
   \<and> filterCategory ghostState = ''Ghost''
   \<and> filterCategory (deleteCategory ''Ghost'' ghostState) = ''all''"
  using deleteCategory_absent_name [of "''Ghost''" ghostState]
  by (simp add: ghostState_def initialState_def handler_defs trim_def isWhiteSpace_def)

text \<open>
  C6. In every state of the component the categories are pairwise different strings.
  Adding a name that is among them leaves the state as it is, and after adding
  \<^verbatim>\<open>"Work"\<close> twice the name \<^verbatim>\<open>Work\<close> occurs once.
\<close>

theorem categories_distinct:
  assumes "reachable s"
  shows "distinct (categories s)
   \<and> (name \<in> set (categories s) \<longrightarrow> addCategoryOp name s = setNewCategory name s)
   \<and> count_list (categories (addCategoryOp ''Work'' (addCategoryOp ''Work'' s))) ''Work'' = 1"
proof -
  from assms have ok: "catsOk s" by (rule reachable_catsOk)
  then have d: "distinct (categories s)" by (simp add: catsOk_def)
  have noop: "name \<in> set (categories s) \<longrightarrow> addCategoryOp name s = setNewCategory name s"
    using ok by (auto simp: catsOk_def addCategoryOp_def addCategory_def setNewCategory_def)
  let ?s1 = "addCategoryOp ''Work'' s"
  have tw: "trim ''Work'' = ''Work''" by (simp add: trim_def isWhiteSpace_def)
  have c1: "categories ?s1 = (if ''Work'' \<in> set (categories s) then categories s
                              else categories s @ [''Work''])"
    by (simp add: addCategoryOp_def addCategory_def setNewCategory_def tw)
  have c2: "categories (addCategoryOp ''Work'' ?s1) = categories ?s1"
    by (simp add: addCategoryOp_def addCategory_def setNewCategory_def tw)
  from d c1 have "distinct (categories ?s1)" and "''Work'' \<in> set (categories ?s1)"
    by auto
  then have "count_list (categories ?s1) ''Work'' = 1"
    by (simp add: count_list_distinct)
  with d noop c2 show ?thesis by simp
qed

theorem categories_distinct_witness:
  "reachable sampleState \<and> distinct (categories sampleState)
   \<and> ''Shopping'' \<in> set (categories sampleState)
   \<and> categories (addCategoryOp ''Shopping'' sampleState) = categories sampleState
   \<and> count_list (categories (addCategoryOp ''Work'' (addCategoryOp ''Work'' sampleState)))
        ''Work'' = 1"
  using categories_distinct [OF reachable_sampleState, of "''Shopping''"] reachable_sampleState
  by (simp add: sampleState_eq setNewCategory_def)

text \<open>
  C3, as the code has it. \<^verbatim>\<open>saveEditCategory\<close> works with the trimmed new name
  throughout. Renaming changes neither categories, todos, selection nor filter when the
  trimmed new name is empty or is among the categories. Otherwise every occurrence of
  the old name in the categories becomes the trimmed new name, at its position; every
  todo of the old category gets the trimmed new name; a selection and a filter equal to
  the old name become the trimmed new name.
\<close>

theorem renameCategory_trimmed:
  "(trim newName = [] \<or> trim newName \<in> set (categories s) \<longrightarrow>
      categories (renameCategory oldName newName s) = categories s
      \<and> todos (renameCategory oldName newName s) = todos s
      \<and> selectedCategory (renameCategory oldName newName s) = selectedCategory s
      \<and> filterCategory (renameCategory oldName newName s) = filterCategory s)
   \<and> (trim newName \<noteq> [] \<and> trim newName \<notin> set (categories s) \<longrightarrow>
      categories (renameCategory oldName newName s) =
        map (\<lambda>c. if c = oldName then trim newName else c) (categories s)
      \<and> length (categories (renameCategory oldName newName s)) = length (categories s)
      \<and> (\<forall>i < length (categories s).
            categories (renameCategory oldName newName s) ! i =
              (if categories s ! i = oldName then trim newName else categories s ! i))
      \<and> todos (renameCategory oldName newName s) =
          map (\<lambda>t. if category t = oldName then t\<lparr>category := trim newName\<rparr> else t) (todos s)
      \<and> selectedCategory (renameCategory oldName newName s) =
          (if selectedCategory s = oldName then trim newName else selectedCategory s)
      \<and> filterCategory (renameCategory oldName newName s) =
          (if filterCategory s = oldName then trim newName else filterCategory s))"
  by (auto simp: renameCategory_def saveEditCategory_def startEditCategory_def
      setEditCategoryValue_def Let_def)

theorem renameCategory_trimmed_witness:
  "trim '' Work '' \<in> set (categories sampleState)
   \<and> categories (renameCategory ''Personal'' '' Work '' sampleState) = categories sampleState
   \<and> todos (renameCategory ''Personal'' '' Work '' sampleState) = todos sampleState
   \<and> trim '' Job '' \<noteq> [] \<and> trim '' Job '' \<notin> set (categories sampleState)
   \<and> categories (renameCategory ''Work'' '' Job '' sampleState)
       = [''Personal'', ''Job'', ''Shopping'']
   \<and> map category (todos (renameCategory ''Work'' '' Job '' sampleState))
       = [''Job'', ''Uncategorized'', ''Job'']
   \<and> selectedCategory (renameCategory ''Work'' '' Job '' sampleState) = ''Job''
   \<and> filterCategory (renameCategory ''Work'' '' Job '' sampleState) = ''Job''"
  using renameCategory_trimmed [of "'' Work ''" sampleState "''Personal''"]
    renameCategory_trimmed [of "'' Job ''" sampleState "''Work''"]
  by (simp add: sampleState_eq trim_def isWhiteSpace_def)

text \<open>
  C3, as stated, at a new name with blanks around it: \<^verbatim>\<open>" Home "\<close> trims to a
  non-empty name and is not a category, yet the category put in place of \<^verbatim>\<open>Personal\<close>
  is \<^verbatim>\<open>"Home"\<close>; and \<^verbatim>\<open>" Work "\<close> is not a category either, yet nothing is renamed.
\<close>

theorem renameCategory_untrimmed_counterexample:
  "trim '' Home '' \<noteq> [] \<and> '' Home '' \<notin> set (categories initialState)
   \<and> categories (renameCategory ''Personal'' '' Home '' initialState)
       = [''Home'', ''Work'', ''Shopping'']
   \<and> categories (renameCategory ''Personal'' '' Home '' initialState)
       \<noteq> ['' Home '', ''Work'', ''Shopping'']
   \<and> trim '' Work '' \<noteq> [] \<and> '' Work '' \<notin> set (categories initialState)
   \<and> categories (renameCategory ''Personal'' '' Work '' initialState)
       = [''Personal'', ''Work'', ''Shopping'']
   \<and> categories (renameCategory ''Personal'' '' Work '' initialState)
       \<noteq> ['' Work '', ''Work'', ''Shopping'']"
  by (simp add: renameCategory_def initialState_def handler_defs trim_def isWhiteSpace_def)

text \<open>
  C1, as the code has it. Along every run from the initial state in which each event
  is one the rendered controls offer (the selection is set to the empty value or to a
  current category, and Save is pressed while a current category is being edited),
  every todo's category is \<^verbatim>\<open>Uncategorized\<close> or one of the categories.
\<close>

theorem refIntegrity_offered:
  assumes "offeredRun es initialState"
  shows "refIntegrity (run es initialState)"
proof -
  have "refIntegrity initialState" "selectionOk initialState"
    by (simp_all add: refIntegrity_def selectionOk_def initialState_def)
  with assms show ?thesis using offeredRun_inv by blast
qed

theorem refIntegrity_offered_witness:
  "offeredRun officeRun initialState
   \<and> map category (todos (run officeRun initialState))
       = [''Uncategorized'', ''Uncategorized'', ''Home'']
   \<and> categories (run officeRun initialState) = [''Personal'', ''Shopping'', ''Home'']
   \<and> refIntegrity (run officeRun initialState)"
proof -
  have o: "offeredRun officeRun initialState"
    by (simp add: officeRun_def initialState_def handler_defs trim_def isWhiteSpace_def Let_def)
  show ?thesis
    using refIntegrity_offered [OF o] o
    by (simp add: officeRun_def initialState_def handler_defs trim_def isWhiteSpace_def Let_def)
qed

text \<open>
  C1, as stated, with the selection set to an arbitrary string: the todo added next
  carries a category that is neither \<^verbatim>\<open>Uncategorized\<close> nor among the categories.
\<close>

theorem refIntegrity_counterexample:
  "\<not> refIntegrity (run [SetSelectedCategory ''Ghost'', SetInput ''x'', AddTodo 1] initialState)"
  by (simp add: refIntegrity_def initialState_def handler_defs trim_def isWhiteSpace_def)

text \<open>
  C8, as the code has it. The id of a todo is the clock reading of the add that made
  it, and an add refused for a blank text reads no clock. The ids in the collection,
  from front to back, are a subsequence of the readings of the run in the order taken.
  So no later todo has a smaller id when the readings never decrease, and the ids are
  pairwise different when the readings are.
\<close>

theorem ids_follow_clock:
  "subseq (map id_todo (todos (run es initialState))) (readings es initialState)
   \<and> (sorted (readings es initialState) \<longrightarrow>
        sorted (map id_todo (todos (run es initialState))))
   \<and> (distinct (readings es initialState) \<longrightarrow>
        distinct (map id_todo (todos (run es initialState))))"
proof -
  have "subseq (map id_todo (todos (run es initialState)))
          (map id_todo (todos initialState) @ readings es initialState)"
    by (rule ids_run_subseq)
  then have s: "subseq (map id_todo (todos (run es initialState))) (readings es initialState)"
    by (simp add: initialState_def)
  then show ?thesis
    by (auto intro: subseq_sorted_wrt subseq_distinct)
qed

theorem ids_follow_clock_witness:
  "readings clockRun initialState = [5, 6, 9]
   \<and> sorted (readings clockRun initialState) \<and> distinct (readings clockRun initialState)
   \<and> map id_todo (todos (run clockRun initialState)) = [5, 9]
   \<and> sorted (map id_todo (todos (run clockRun initialState)))
   \<and> distinct (map id_todo (todos (run clockRun initialState)))
   \<and> readings clockRepeat initialState = [5, 6, 9, 9]
   \<and> sorted (readings clockRepeat initialState)
   \<and> sorted (map id_todo (todos (run clockRepeat initialState)))"
proof -
  have r: "readings clockRun initialState = [5, 6, 9]"
    by (simp add: clockRun_def initialState_def handler_defs trim_def isWhiteSpace_def)
  have i: "map id_todo (todos (run clockRun initialState)) = [5, 9]"
    by (simp add: clockRun_def initialState_def handler_defs trim_def isWhiteSpace_def)
  have q: "readings clockRepeat initialState = [5, 6, 9, 9]"
    by (simp add: clockRepeat_def clockRun_def initialState_def handler_defs trim_def
        isWhiteSpace_def)
  from r have "sorted (readings clockRun initialState)"
    and "distinct (readings clockRun initialState)"
    by simp_all
  moreover from q have "sorted (readings clockRepeat initialState)"
    by simp
  ultimately show ?thesis
    using r i q ids_follow_clock [of clockRun] ids_follow_clock [of clockRepeat]
    by blast
qed

text \<open>
  C8, as stated: two add events that read the same clock value give two todos of one
  id, and a clock that went back gives a later todo the smaller id.
\<close>

theorem ids_clock_counterexample:
  "\<not> distinct (map id_todo (todos (run [SetInput ''a'', AddTodo 5, SetInput ''b'', AddTodo 5]
        initialState)))
   \<and> map id_todo (todos (run [SetInput ''a'', AddTodo 5, SetInput ''b'', AddTodo 3]
        initialState)) = [5, 3]"
  by (simp add: initialState_def handler_defs trim_def isWhiteSpace_def)

text \<open>
  C5. For a consistent comparison of category names, the view is the todos of the
  filter's category (all todos under the filter \<^verbatim>\<open>all\<close>) rearranged: it has the same
  todos with the same multiplicities, it is ordered by the comparison of the categories,
  and the todos of one category, as the todos of categories the comparison takes for
  equal, stand in the order they had before. When the comparison puts \<^verbatim>\<open>A\<close> before
  \<^verbatim>\<open>B\<close>, the todos B:1, A:2, A:3 are shown as 2, 3, 1.
\<close>

theorem sortedTodos_stable_sort:
  assumes "consistent cmp"
  shows "filteredTodos s =
       (if filterCategory s = ''all'' then todos s
        else filter (\<lambda>t. category t = filterCategory s) (todos s))
   \<and> mset (sortedTodos cmp s) = mset (filteredTodos s)
   \<and> sorted_wrt (\<lambda>a b. cmp (category a) (category b) \<le> 0) (sortedTodos cmp s)
   \<and> (\<forall>c. filter (\<lambda>t. category t = c) (sortedTodos cmp s)
            = filter (\<lambda>t. category t = c) (filteredTodos s))
   \<and> (\<forall>c. filter (\<lambda>t. cmp (category t) c = 0) (sortedTodos cmp s)
            = filter (\<lambda>t. cmp (category t) c = 0) (filteredTodos s))
   \<and> (cmp ''A'' ''B'' < 0 \<longrightarrow> map id_todo (sortedTodos cmp stableExample) = [2, 3, 1])"
proof -
  from assms have refl: "cmp a a = 0" for a
    by (simp add: consistent_def)
  from assms have sym: "cmp a b < 0 \<longleftrightarrow> 0 < cmp b a" for a b
    unfolding consistent_def by blast
  from assms have trans: "cmp a b \<le> 0 \<Longrightarrow> cmp b d \<le> 0 \<Longrightarrow> cmp a d \<le> 0" for a b d
    unfolding consistent_def by blast
  have total: "0 < cmp a b \<Longrightarrow> cmp b a \<le> 0" for a b
    using sym [of b a] by simp
  have perm: "mset (sortedTodos cmp s) = mset (filteredTodos s)"
    by (simp add: sortedTodos_def mset_sortBy)
  have sorted: "sorted_wrt (\<lambda>a b. cmp (category a) (category b) \<le> 0) (sortedTodos cmp s)"
    unfolding sortedTodos_def
  proof (rule sorted_sortBy)
    fix a b :: todo
    assume "0 < cmp (category a) (category b)"
    then show "cmp (category b) (category a) \<le> 0" by (rule total)
  next
    fix a b d :: todo
    assume "cmp (category a) (category b) \<le> 0" "cmp (category b) (category d) \<le> 0"
    then show "cmp (category a) (category d) \<le> 0" by (rule trans)
  qed
  have same: "filter (\<lambda>t. category t = c) (sortedTodos cmp s)
                = filter (\<lambda>t. category t = c) (filteredTodos s)" for c
    unfolding sortedTodos_def by (rule filter_sortBy) (simp add: refl)
  have equiv: "filter (\<lambda>t. cmp (category t) c = 0) (sortedTodos cmp s)
                = filter (\<lambda>t. cmp (category t) c = 0) (filteredTodos s)" for c
    unfolding sortedTodos_def
  proof (rule filter_sortBy)
    fix x y :: todo
    assume x: "cmp (category x) c = 0" and y: "cmp (category y) c = 0"
    from y have "\<not> cmp (category y) c < 0" by simp
    then have "\<not> 0 < cmp c (category y)" using sym [of "category y" c] by blast
    then have "cmp c (category y) \<le> 0" by simp
    with x show "cmp (category x) (category y) \<le> 0"
      using trans [of "category x" c "category y"] by simp
  qed
  have ex: "map id_todo (sortedTodos cmp stableExample) = [2, 3, 1]" if "cmp ''A'' ''B'' < 0"
  proof -
    from that have "0 < cmp ''B'' ''A''" using sym by blast
    then have "\<not> cmp ''B'' ''A'' \<le> 0" by simp
    then show ?thesis
      by (simp add: sortedTodos_def filteredTodos_def stableExample_def initialState_def refl)
  qed
  show ?thesis
    using perm sorted same equiv ex by (simp add: filteredTodos_def)
qed

theorem sortedTodos_stable_sort_witness:
  "consistent codeUnitCompare
   \<and> map id_todo (filteredTodos sampleState) = [1, 3]
   \<and> map id_todo (sortedTodos codeUnitCompare sampleState) = [1, 3]
   \<and> map id_todo (sortedTodos codeUnitCompare (setFilterCategory ''all'' sampleState))
       = [2, 1, 3]
   \<and> sorted_wrt (\<lambda>a b. codeUnitCompare (category a) (category b) \<le> 0)
        (sortedTodos codeUnitCompare sampleState)
   \<and> codeUnitCompare ''A'' ''B'' < 0
   \<and> map id_todo (sortedTodos codeUnitCompare stableExample) = [2, 3, 1]"
proof -
  have "map id_todo (sortedTodos codeUnitCompare sampleState) = [1, 3]"
    by (simp add: sortedTodos_def filteredTodos_def sampleState_eq)
  moreover have "map id_todo (filteredTodos sampleState) = [1, 3]"
    by (simp add: filteredTodos_def sampleState_eq)
  moreover have
    "map id_todo (sortedTodos codeUnitCompare (setFilterCategory ''all'' sampleState))
       = [2, 1, 3]"
    by (simp add: sortedTodos_def filteredTodos_def sampleState_eq setFilterCategory_def)
  moreover have "codeUnitCompare ''A'' ''B'' < 0"
    by simp
  moreover note consistent_codeUnitCompare
    sortedTodos_stable_sort [OF consistent_codeUnitCompare, of sampleState]
  ultimately show ?thesis
    by blast
qed

end
